theory Spec2Isabelle
  imports Main "HOL-Library.Word"
begin

section \<open>The loader's resource registries (src/os/loadersys.c)\<close>

text \<open>
  The C source works on 32-bit signed integers (\<open>s32\<close>). They are modelled as
  32-bit words; \<open>-1\<close> is the word \<open>0xFFFFFFFF\<close> and the signed comparison of
  the source is \<open><s\<close>.
\<close>

type_synonym s32 = "32 word"

text \<open>\<^verbatim>\<open>#define THREAD_LIST_LEN 256\<close> and \<^verbatim>\<open>#define SEMA_LIST_LEN 256\<close>.\<close>

definition THREAD_LIST_LEN :: nat where
  "THREAD_LIST_LEN = 256"

definition SEMA_LIST_LEN :: nat where
  "SEMA_LIST_LEN = 256"

text \<open>
  The kernel calls the source makes. The model records each call the loader
  issues, with its arguments, in the order of issue.
\<close>

datatype syscall =
    SysGetThreadId
  | SysChangeThreadPriority s32 s32

text \<open>
  The global state the functions of the source read and write:
  \<^verbatim>\<open>s32 thread_list[THREAD_LIST_LEN]\<close>, \<^verbatim>\<open>s32 sema_list[SEMA_LIST_LEN]\<close>,
  and, for the kernel, the id of the running thread (what \<open>GetThreadId\<close> reports)
  and the log of kernel calls issued so far.
\<close>

record loader_sys =
  thread_list :: "s32 list"
  sema_list :: "s32 list"
  running_thread :: s32
  syscalls :: "syscall list"

text \<open>The two arrays have their declared sizes.\<close>

definition registry_ok :: "loader_sys \<Rightarrow> bool" where
  "registry_ok s \<longleftrightarrow>
     length (thread_list s) = THREAD_LIST_LEN \<and> length (sema_list s) = SEMA_LIST_LEN"

subsection \<open>LoaderSysDeleteExternalThreadList\<close>

text \<open>
  \<^verbatim>\<open>
  for (i = 0; i < THREAD_LIST_LEN; i++) {
      if (thread_list[i] == threadId) {
          thread_list[i] = -1;
          return threadId;
      }
  }
  return -1;
  \<close>
  The loop, entered with the counter at \<open>i\<close>; the result is the value returned
  and the state left behind.
\<close>

function LoaderSysDeleteExternalThreadList_loop ::
  "nat \<Rightarrow> s32 \<Rightarrow> loader_sys \<Rightarrow> s32 \<times> loader_sys" where
  "LoaderSysDeleteExternalThreadList_loop i threadId s =
     (if i < THREAD_LIST_LEN then
        (if thread_list s ! i = threadId
         then (threadId, s\<lparr>thread_list := (thread_list s)[i := - 1]\<rparr>)
         else LoaderSysDeleteExternalThreadList_loop (Suc i) threadId s)
      else (- 1, s))"
  by pat_completeness auto
termination
  by (relation "measure (\<lambda>(i, threadId, s). THREAD_LIST_LEN - i)") auto

declare LoaderSysDeleteExternalThreadList_loop.simps [simp del]

definition LoaderSysDeleteExternalThreadList :: "s32 \<Rightarrow> loader_sys \<Rightarrow> s32 \<times> loader_sys" where
  "LoaderSysDeleteExternalThreadList threadId s =
     LoaderSysDeleteExternalThreadList_loop 0 threadId s"

subsection \<open>LoaderSysDeleteExternalSemaList\<close>

text \<open>The same loop over \<open>sema_list\<close>, with \<open>SEMA_LIST_LEN\<close> as its bound.\<close>

function LoaderSysDeleteExternalSemaList_loop ::
  "nat \<Rightarrow> s32 \<Rightarrow> loader_sys \<Rightarrow> s32 \<times> loader_sys" where
  "LoaderSysDeleteExternalSemaList_loop i param_1 s =
     (if i < SEMA_LIST_LEN then
        (if sema_list s ! i = param_1
         then (param_1, s\<lparr>sema_list := (sema_list s)[i := - 1]\<rparr>)
         else LoaderSysDeleteExternalSemaList_loop (Suc i) param_1 s)
      else (- 1, s))"
  by pat_completeness auto
termination
  by (relation "measure (\<lambda>(i, param_1, s). SEMA_LIST_LEN - i)") auto

declare LoaderSysDeleteExternalSemaList_loop.simps [simp del]

definition LoaderSysDeleteExternalSemaList :: "s32 \<Rightarrow> loader_sys \<Rightarrow> s32 \<times> loader_sys" where
  "LoaderSysDeleteExternalSemaList param_1 s =
     LoaderSysDeleteExternalSemaList_loop 0 param_1 s"

subsection \<open>LoaderSysChangeExternalThreadPriorityExceptMe\<close>

text \<open>
  Modelled from the spec: the kernel calls \<open>GetThreadId\<close> and
  \<open>ChangeThreadPriority\<close> (their code is the kernel's). \<open>GetThreadId\<close> returns
  the id of the running thread; both are entered in the log of kernel calls.
  The source ignores what \<open>ChangeThreadPriority\<close> returns.
\<close>

definition GetThreadId :: "loader_sys \<Rightarrow> s32 \<times> loader_sys" where
  "GetThreadId s = (running_thread s, s\<lparr>syscalls := syscalls s @ [SysGetThreadId]\<rparr>)"

definition ChangeThreadPriority :: "s32 \<Rightarrow> s32 \<Rightarrow> loader_sys \<Rightarrow> loader_sys" where
  "ChangeThreadPriority thread_id priority s =
     s\<lparr>syscalls := syscalls s @ [SysChangeThreadPriority thread_id priority]\<rparr>"

text \<open>
  \<^verbatim>\<open>
  thread_id = GetThreadId();
  for (i = 0; i < THREAD_LIST_LEN; i++) {
      if ((thread_list[i] != thread_id) && (-1 < thread_list[i])) {
          ChangeThreadPriority(thread_list[i], priority);
      }
  }
  \<close>
\<close>

function LoaderSysChangeExternalThreadPriorityExceptMe_loop ::
  "nat \<Rightarrow> s32 \<Rightarrow> s32 \<Rightarrow> loader_sys \<Rightarrow> loader_sys" where
  "LoaderSysChangeExternalThreadPriorityExceptMe_loop i thread_id priority s =
     (if i < THREAD_LIST_LEN then
        (if thread_list s ! i \<noteq> thread_id \<and> - 1 <s thread_list s ! i
         then LoaderSysChangeExternalThreadPriorityExceptMe_loop (Suc i) thread_id priority
                (ChangeThreadPriority (thread_list s ! i) priority s)
         else LoaderSysChangeExternalThreadPriorityExceptMe_loop (Suc i) thread_id priority s)
      else s)"
  by pat_completeness auto
termination
  by (relation "measure (\<lambda>(i, thread_id, priority, s). THREAD_LIST_LEN - i)") auto

declare LoaderSysChangeExternalThreadPriorityExceptMe_loop.simps [simp del]

definition LoaderSysChangeExternalThreadPriorityExceptMe :: "s32 \<Rightarrow> loader_sys \<Rightarrow> loader_sys" where
  "LoaderSysChangeExternalThreadPriorityExceptMe priority s =
     (let (thread_id, s1) = GetThreadId s
      in LoaderSysChangeExternalThreadPriorityExceptMe_loop 0 thread_id priority s1)"

text \<open>
  The kernel calls issued between a state \<open>s\<close> and a later state \<open>s'\<close>.
\<close>

definition issued :: "loader_sys \<Rightarrow> loader_sys \<Rightarrow> syscall list" where
  "issued s s' = drop (length (syscalls s)) (syscalls s')"

subsection \<open>The registry invariant\<close>

text \<open>
  A handle appears in at most one slot: the values other than the sentinel
  \<open>-1\<close> are pairwise distinct.
\<close>

definition handles_unique :: "s32 list \<Rightarrow> bool" where
  "handles_unique xs \<longleftrightarrow> distinct (filter (\<lambda>v. v \<noteq> - 1) xs)"

subsection \<open>checkHookDesc\<close>

text \<open>
  Modelled from the spec: \<open>strncmp\<close> is the C library's, not code of this
  repository. A C string is modelled by the characters before its terminating
  NUL; reading at its end yields the NUL. \<open>strncmp s1 s2 n\<close> compares at most
  \<open>n\<close> characters as unsigned bytes, stops after a common NUL, and returns the
  difference of the first two bytes that differ, or 0.
\<close>

definition byte_at_start :: "string \<Rightarrow> nat" where
  "byte_at_start str = (case str of [] \<Rightarrow> 0 | c # _ \<Rightarrow> of_char c)"

fun strncmp :: "string \<Rightarrow> string \<Rightarrow> nat \<Rightarrow> int" where
  "strncmp s1 s2 0 = 0"
| "strncmp s1 s2 (Suc n) =
     (let c1 = byte_at_start s1; c2 = byte_at_start s2
      in if c1 \<noteq> c2 then int c1 - int c2
         else if c1 = 0 then 0
         else strncmp (tl s1) (tl s2) n)"

text \<open>
  \<^verbatim>\<open>
  lVar1 = strncmp(hook_desc, "host0:", 6);
  iVar2 = (int)hook_desc + 6;
  if (lVar1 == 0) { return iVar2; }
  return 0;
  \<close>
  The argument is a pointer: \<open>hook_desc\<close> is its 32-bit value and \<open>str\<close> the
  string it points to. The function reads no global and writes nothing, so it
  takes and returns no state.
\<close>

definition checkHookDesc :: "s32 \<Rightarrow> string \<Rightarrow> s32" where
  "checkHookDesc hook_desc str =
     (let lVar1 = strncmp str ''host0:'' 6;
          iVar2 = hook_desc + 6
      in if lVar1 = 0 then iVar2 else 0)"

subsection \<open>The recovery controller\<close>

text \<open>
  Modelled from the spec: \<open>recoverAndJump\<close>. The functions behind it
  (LoaderSysJumpRecoverPoint, LoaderSysExecuteRecoveryFirstProcess and the
  LoaderSysDeleteAllExternal... family) are included as assembly (INCLUDE_ASM);
  the C source has no body for them.
  The spec: "performs, in order: (1) delete every registered interrupt handler,
  (2) terminate every registered thread except the caller, (3) delete every
  registered semaphore, (4) release every reserved memory block, (5) restore
  the captured context and resume execution there", and "never returns to its
  caller on success (control transfers to the recovery point)". The spec names
  no way for it to fail. A registry maps a slot to a handle or to the sentinel
  \<open>-1\<close>; its registered handles are the values other than the sentinel.
\<close>

record recovery_point =
  saved_pc :: s32
  saved_sp :: s32

datatype teardown_step =
    DeleteIntcHandler s32
  | TerminateThread s32
  | DeleteSema s32
  | ReleaseMemory s32
  | RestoreContext recovery_point

datatype control = ReturnsToCaller | ResumesAt recovery_point

record recovery_sys =
  intc_handlers :: "s32 list"
  threads :: "s32 list"
  semaphores :: "s32 list"
  memory_blocks :: "s32 list"
  caller :: s32
  captured :: recovery_point

definition registered :: "s32 list \<Rightarrow> s32 list" where
  "registered slots = filter (\<lambda>v. v \<noteq> - 1) slots"

definition recoverAndJump :: "recovery_sys \<Rightarrow> teardown_step list \<times> control" where
  "recoverAndJump s =
     (map DeleteIntcHandler (registered (intc_handlers s)) @
      map TerminateThread (filter (\<lambda>t. t \<noteq> caller s) (registered (threads s))) @
      map DeleteSema (registered (semaphores s)) @
      map ReleaseMemory (registered (memory_blocks s)) @
      [RestoreContext (captured s)],
      ResumesAt (captured s))"

text \<open>The position of a step in the order the spec prescribes.\<close>

fun phase :: "teardown_step \<Rightarrow> nat" where
  "phase (DeleteIntcHandler _) = 1"
| "phase (TerminateThread _) = 2"
| "phase (DeleteSema _) = 3"
| "phase (ReleaseMemory _) = 4"
| "phase (RestoreContext _) = 5"

subsection \<open>States for the examples\<close>

text \<open>
  A state for the examples: both registries hold the handles 5, 9, 5 in their
  first three slots and the sentinel in the other 253.
\<close>

definition registry_5_9_5 :: loader_sys where
  "registry_5_9_5 =
     \<lparr>thread_list = [5, 9, 5] @ replicate 253 (- 1),
      sema_list = [5, 9, 5] @ replicate 253 (- 1),
      running_thread = 5,
      syscalls = []\<rparr>"

text \<open>
  A thread registry with a negative value that is not the sentinel in slot 0,
  the running thread's own id in slot 1 and another thread's id in slot 2.
\<close>

definition registry_negative_slot :: loader_sys where
  "registry_negative_slot =
     \<lparr>thread_list = [- 2, 7, 3] @ replicate 253 (- 1),
      sema_list = replicate 256 (- 1),
      running_thread = 7,
      syscalls = []\<rparr>"

text \<open>A state in which no handle occupies two slots.\<close>

definition registry_unique :: loader_sys where
  "registry_unique =
     \<lparr>thread_list = [5, 9, 3] @ replicate 253 (- 1),
      sema_list = [- 1, 4, 8] @ replicate 253 (- 1),
      running_thread = 9,
      syscalls = []\<rparr>"

text \<open>
  Three threads (the caller is thread 2), a semaphore, an interrupt handler and
  a reserved memory block.
\<close>

definition recovery_example :: recovery_sys where
  "recovery_example =
     \<lparr>intc_handlers = [4, - 1],
      threads = [1, 2, - 1, 3],
      semaphores = [- 1, 8],
      memory_blocks = [- 1, 0x40],
      caller = 2,
      captured = \<lparr>saved_pc = 0x100000, saved_sp = 0x1F00000\<rparr>\<rparr>"

section \<open>The scans\<close>

lemma registry_5_9_5_ok: "registry_ok registry_5_9_5"
  by (simp add: registry_ok_def registry_5_9_5_def THREAD_LIST_LEN_def SEMA_LIST_LEN_def)


lemma thread_loop_absent:
  "\<forall>k. i \<le> k \<and> k < THREAD_LIST_LEN \<longrightarrow> thread_list s ! k \<noteq> h \<Longrightarrow>
   LoaderSysDeleteExternalThreadList_loop i h s = (- 1, s)"
proof (induction i h s rule: LoaderSysDeleteExternalThreadList_loop.induct)
  case (1 i threadId s)
  show ?case
  proof (cases "i < THREAD_LIST_LEN")
    case True
    with "1.prems" have ne: "thread_list s ! i \<noteq> threadId" by simp
    from "1.prems" have "\<forall>k. Suc i \<le> k \<and> k < THREAD_LIST_LEN \<longrightarrow> thread_list s ! k \<noteq> threadId"
      by simp
    with "1.IH" True ne
    have "LoaderSysDeleteExternalThreadList_loop (Suc i) threadId s = (- 1, s)" by blast
    with True ne show ?thesis
      by (subst LoaderSysDeleteExternalThreadList_loop.simps) simp
  next
    case False
    then show ?thesis
      by (subst LoaderSysDeleteExternalThreadList_loop.simps) simp
  qed
qed

lemma thread_loop_found:
  "i \<le> j \<Longrightarrow> j < THREAD_LIST_LEN \<Longrightarrow> thread_list s ! j = h \<Longrightarrow>
   \<forall>k. i \<le> k \<and> k < j \<longrightarrow> thread_list s ! k \<noteq> h \<Longrightarrow>
   LoaderSysDeleteExternalThreadList_loop i h s =
     (h, s\<lparr>thread_list := (thread_list s)[j := - 1]\<rparr>)"
proof (induction i h s rule: LoaderSysDeleteExternalThreadList_loop.induct)
  case (1 i threadId s)
  from "1.prems" have lt: "i < THREAD_LIST_LEN" by simp
  show ?case
  proof (cases "i = j")
    case True
    with "1.prems" lt show ?thesis
      by (subst LoaderSysDeleteExternalThreadList_loop.simps) simp
  next
    case False
    with "1.prems" have ne: "thread_list s ! i \<noteq> threadId" and le: "Suc i \<le> j" by auto
    from "1.prems" have "\<forall>k. Suc i \<le> k \<and> k < j \<longrightarrow> thread_list s ! k \<noteq> threadId" by simp
    with "1.IH" [OF lt ne le] "1.prems"
    have "LoaderSysDeleteExternalThreadList_loop (Suc i) threadId s =
            (threadId, s\<lparr>thread_list := (thread_list s)[j := - 1]\<rparr>)" by blast
    with lt ne show ?thesis
      by (subst LoaderSysDeleteExternalThreadList_loop.simps) simp
  qed
qed

lemma sema_loop_absent:
  "\<forall>k. i \<le> k \<and> k < SEMA_LIST_LEN \<longrightarrow> sema_list s ! k \<noteq> h \<Longrightarrow>
   LoaderSysDeleteExternalSemaList_loop i h s = (- 1, s)"
proof (induction i h s rule: LoaderSysDeleteExternalSemaList_loop.induct)
  case (1 i param_1 s)
  show ?case
  proof (cases "i < SEMA_LIST_LEN")
    case True
    with "1.prems" have ne: "sema_list s ! i \<noteq> param_1" by simp
    from "1.prems" have "\<forall>k. Suc i \<le> k \<and> k < SEMA_LIST_LEN \<longrightarrow> sema_list s ! k \<noteq> param_1"
      by simp
    with "1.IH" True ne
    have "LoaderSysDeleteExternalSemaList_loop (Suc i) param_1 s = (- 1, s)" by blast
    with True ne show ?thesis
      by (subst LoaderSysDeleteExternalSemaList_loop.simps) simp
  next
    case False
    then show ?thesis
      by (subst LoaderSysDeleteExternalSemaList_loop.simps) simp
  qed
qed

lemma sema_loop_found:
  "i \<le> j \<Longrightarrow> j < SEMA_LIST_LEN \<Longrightarrow> sema_list s ! j = h \<Longrightarrow>
   \<forall>k. i \<le> k \<and> k < j \<longrightarrow> sema_list s ! k \<noteq> h \<Longrightarrow>
   LoaderSysDeleteExternalSemaList_loop i h s =
     (h, s\<lparr>sema_list := (sema_list s)[j := - 1]\<rparr>)"
proof (induction i h s rule: LoaderSysDeleteExternalSemaList_loop.induct)
  case (1 i param_1 s)
  from "1.prems" have lt: "i < SEMA_LIST_LEN" by simp
  show ?case
  proof (cases "i = j")
    case True
    with "1.prems" lt show ?thesis
      by (subst LoaderSysDeleteExternalSemaList_loop.simps) simp
  next
    case False
    with "1.prems" have ne: "sema_list s ! i \<noteq> param_1" and le: "Suc i \<le> j" by auto
    from "1.prems" have "\<forall>k. Suc i \<le> k \<and> k < j \<longrightarrow> sema_list s ! k \<noteq> param_1" by simp
    with "1.IH" [OF lt ne le] "1.prems"
    have "LoaderSysDeleteExternalSemaList_loop (Suc i) param_1 s =
            (param_1, s\<lparr>sema_list := (sema_list s)[j := - 1]\<rparr>)" by blast
    with lt ne show ?thesis
      by (subst LoaderSysDeleteExternalSemaList_loop.simps) simp
  qed
qed

text \<open>A value that occurs in a list has a lowest index.\<close>

lemma lowest_slot:
  assumes "h \<in> set xs"
  shows "\<exists>j<length xs. xs ! j = h \<and> (\<forall>k<j. xs ! k \<noteq> h)"
proof -
  from assms obtain n where n: "n < length xs \<and> xs ! n = h"
    by (auto simp: in_set_conv_nth)
  define j where "j = (LEAST m. m < length xs \<and> xs ! m = h)"
  from n have "j < length xs \<and> xs ! j = h"
    unfolding j_def by (rule LeastI)
  moreover have "\<forall>k<j. xs ! k \<noteq> h"
  proof (intro allI impI notI)
    fix k assume "k < j" and "xs ! k = h"
    with \<open>j < length xs \<and> xs ! j = h\<close> have "k < length xs \<and> xs ! k = h" by simp
    then have "j \<le> k" unfolding j_def by (rule Least_le)
    with \<open>k < j\<close> show False by simp
  qed
  ultimately show ?thesis by blast
qed

lemma store_same: "xs ! i = v \<Longrightarrow> xs[i := v] = xs"
  by (metis list_update_id)

lemma thread_loop_sentinel:
  "h = - 1 \<Longrightarrow> LoaderSysDeleteExternalThreadList_loop i h s = (- 1, s)"
proof (induction i h s rule: LoaderSysDeleteExternalThreadList_loop.induct)
  case (1 i threadId s)
  show ?case
  proof (cases "i < THREAD_LIST_LEN \<and> thread_list s ! i \<noteq> threadId")
    case True
    with "1.IH" "1.prems"
    have "LoaderSysDeleteExternalThreadList_loop (Suc i) threadId s = (- 1, s)" by blast
    with True show ?thesis
      by (subst LoaderSysDeleteExternalThreadList_loop.simps) simp
  next
    case False
    with "1.prems" show ?thesis
      by (subst LoaderSysDeleteExternalThreadList_loop.simps) (auto simp: store_same)
  qed
qed

lemma sema_loop_sentinel:
  "h = - 1 \<Longrightarrow> LoaderSysDeleteExternalSemaList_loop i h s = (- 1, s)"
proof (induction i h s rule: LoaderSysDeleteExternalSemaList_loop.induct)
  case (1 i param_1 s)
  show ?case
  proof (cases "i < SEMA_LIST_LEN \<and> sema_list s ! i \<noteq> param_1")
    case True
    with "1.IH" "1.prems"
    have "LoaderSysDeleteExternalSemaList_loop (Suc i) param_1 s = (- 1, s)" by blast
    with True show ?thesis
      by (subst LoaderSysDeleteExternalSemaList_loop.simps) simp
  next
    case False
    with "1.prems" show ?thesis
      by (subst LoaderSysDeleteExternalSemaList_loop.simps) (auto simp: store_same)
  qed
qed

text \<open>Signed comparisons with the sentinel.\<close>

lemma sless_minus1: "((- 1 :: s32) <s x) = (0 <=s x)"
  unfolding word_sless_alt word_sle_eq by auto

lemma nonneg_not_sentinel: "(0::s32) <=s h \<Longrightarrow> h \<noteq> - 1"
  by (auto simp add: word_sle_eq)

text \<open>The registry of the spec's example, at any offset.\<close>

lemma pattern_lowest:
  fixes xs :: "s32 list"
  assumes "xs = replicate a (- 1) @ [5, 9, 5] @ replicate b (- 1)"
  shows "xs ! Suc a = 9" and "\<forall>k<Suc a. xs ! k \<noteq> 9"
    and "xs[Suc a := - 1] = replicate a (- 1) @ [5, - 1, 5] @ replicate b (- 1)"
proof -
  show "xs ! Suc a = 9" using assms by (simp add: nth_append)
  show "\<forall>k<Suc a. xs ! k \<noteq> 9"
    using assms by (auto simp: nth_append less_Suc_eq)
  show "xs[Suc a := - 1] = replicate a (- 1) @ [5, - 1, 5] @ replicate b (- 1)"
    using assms by (simp add: list_update_append)
qed

section \<open>What a delete returns and leaves behind\<close>

lemma thread_delete_absent:
  assumes "registry_ok s" and "h \<notin> set (thread_list s)"
  shows "LoaderSysDeleteExternalThreadList h s = (- 1, s)"
proof -
  from assms have "\<forall>k. 0 \<le> k \<and> k < THREAD_LIST_LEN \<longrightarrow> thread_list s ! k \<noteq> h"
    by (auto simp: registry_ok_def)
  then show ?thesis
    unfolding LoaderSysDeleteExternalThreadList_def by (rule thread_loop_absent)
qed

lemma thread_delete_lowest:
  assumes "j < THREAD_LIST_LEN" and "thread_list s ! j = h"
    and "\<forall>k<j. thread_list s ! k \<noteq> h"
  shows "LoaderSysDeleteExternalThreadList h s =
           (h, s\<lparr>thread_list := (thread_list s)[j := - 1]\<rparr>)"
  unfolding LoaderSysDeleteExternalThreadList_def
  using assms by (intro thread_loop_found) auto

lemma sema_delete_absent:
  assumes "registry_ok s" and "h \<notin> set (sema_list s)"
  shows "LoaderSysDeleteExternalSemaList h s = (- 1, s)"
proof -
  from assms have "\<forall>k. 0 \<le> k \<and> k < SEMA_LIST_LEN \<longrightarrow> sema_list s ! k \<noteq> h"
    by (auto simp: registry_ok_def)
  then show ?thesis
    unfolding LoaderSysDeleteExternalSemaList_def by (rule sema_loop_absent)
qed

lemma sema_delete_lowest:
  assumes "j < SEMA_LIST_LEN" and "sema_list s ! j = h"
    and "\<forall>k<j. sema_list s ! k \<noteq> h"
  shows "LoaderSysDeleteExternalSemaList h s =
           (h, s\<lparr>sema_list := (sema_list s)[j := - 1]\<rparr>)"
  unfolding LoaderSysDeleteExternalSemaList_def
  using assms by (intro sema_loop_found) auto

lemma thread_delete_present:
  assumes ok: "registry_ok s" and mem: "h \<in> set (thread_list s)"
  obtains j where "j < THREAD_LIST_LEN" and "thread_list s ! j = h"
    and "\<forall>k<j. thread_list s ! k \<noteq> h"
    and "LoaderSysDeleteExternalThreadList h s =
           (h, s\<lparr>thread_list := (thread_list s)[j := - 1]\<rparr>)"
proof -
  from lowest_slot [OF mem]
  obtain j where j: "j < length (thread_list s)" "thread_list s ! j = h"
    "\<forall>k<j. thread_list s ! k \<noteq> h"
    by blast
  from j(1) ok have lt: "j < THREAD_LIST_LEN" by (simp add: registry_ok_def)
  from that [OF lt j(2) j(3) thread_delete_lowest [OF lt j(2) j(3)]] show thesis .
qed

lemma sema_delete_present:
  assumes ok: "registry_ok s" and mem: "h \<in> set (sema_list s)"
  obtains j where "j < SEMA_LIST_LEN" and "sema_list s ! j = h"
    and "\<forall>k<j. sema_list s ! k \<noteq> h"
    and "LoaderSysDeleteExternalSemaList h s =
           (h, s\<lparr>sema_list := (sema_list s)[j := - 1]\<rparr>)"
proof -
  from lowest_slot [OF mem]
  obtain j where j: "j < length (sema_list s)" "sema_list s ! j = h"
    "\<forall>k<j. sema_list s ! k \<noteq> h"
    by blast
  from j(1) ok have lt: "j < SEMA_LIST_LEN" by (simp add: registry_ok_def)
  from that [OF lt j(2) j(3) sema_delete_lowest [OF lt j(2) j(3)]] show thesis .
qed

text \<open>Storing the sentinel in one slot: that slot, the other slots, the size.\<close>

lemma store_frame:
  fixes xs :: "s32 list"
  assumes "j < n" and "length xs = n"
  shows "xs[j := - 1] ! j = - 1" and "\<forall>k<n. k \<noteq> j \<longrightarrow> xs[j := - 1] ! k = xs ! k"
    and "length (xs[j := - 1]) = n"
  using assms by simp_all

text \<open>The invariant and the size of the tables under a delete.\<close>

text \<open>The invariant, slot by slot: two slots with the same value other than
  the sentinel are the same slot.\<close>

lemma handles_unique_slots:
  "handles_unique xs \<longleftrightarrow>
     (\<forall>i<length xs. \<forall>j<length xs. xs ! i = xs ! j \<and> xs ! i \<noteq> - 1 \<longrightarrow> i = j)"
proof (induction xs)
  case Nil
  show ?case by (simp add: handles_unique_def)
next
  case (Cons x xs)
  have step: "handles_unique (x # xs) \<longleftrightarrow>
          (x \<noteq> - 1 \<longrightarrow> x \<notin> set xs) \<and> handles_unique xs"
    by (auto simp: handles_unique_def)
  show ?case
  proof
    assume L: "handles_unique (x # xs)"
    with step Cons.IH have a: "x \<noteq> - 1 \<longrightarrow> x \<notin> set xs"
      and b: "\<forall>i<length xs. \<forall>j<length xs. xs ! i = xs ! j \<and> xs ! i \<noteq> - 1 \<longrightarrow> i = j"
      by blast+
    show "\<forall>i<length (x # xs). \<forall>j<length (x # xs).
            (x # xs) ! i = (x # xs) ! j \<and> (x # xs) ! i \<noteq> - 1 \<longrightarrow> i = j"
    proof (intro allI impI)
      fix i j
      assume i: "i < length (x # xs)" and j: "j < length (x # xs)"
        and e: "(x # xs) ! i = (x # xs) ! j \<and> (x # xs) ! i \<noteq> - 1"
      show "i = j"
      proof (cases i)
        case 0
        show ?thesis
        proof (cases j)
          case 0
          with \<open>i = 0\<close> show ?thesis by simp
        next
          case (Suc j')
          with \<open>i = 0\<close> e j a have False by (auto simp: in_set_conv_nth)
          then show ?thesis ..
        qed
      next
        case (Suc i')
        show ?thesis
        proof (cases j)
          case 0
          with Suc e i a have False by (auto simp: in_set_conv_nth)
          then show ?thesis ..
        next
          case (Suc j')
          with \<open>i = Suc i'\<close> e i j b show ?thesis by auto
        qed
      qed
    qed
  next
    assume R: "\<forall>i<length (x # xs). \<forall>j<length (x # xs).
            (x # xs) ! i = (x # xs) ! j \<and> (x # xs) ! i \<noteq> - 1 \<longrightarrow> i = j"
    have a: "x \<noteq> - 1 \<longrightarrow> x \<notin> set xs"
    proof (intro impI notI)
      assume "x \<noteq> - 1" and "x \<in> set xs"
      then obtain k where "k < length xs" and "xs ! k = x" by (auto simp: in_set_conv_nth)
      with R [rule_format, of 0 "Suc k"] \<open>x \<noteq> - 1\<close> show False by simp
    qed
    have "\<forall>i<length xs. \<forall>j<length xs. xs ! i = xs ! j \<and> xs ! i \<noteq> - 1 \<longrightarrow> i = j"
    proof (intro allI impI)
      fix i j assume "i < length xs" and "j < length xs"
        and "xs ! i = xs ! j \<and> xs ! i \<noteq> - 1"
      with R [rule_format, of "Suc i" "Suc j"] show "i = j" by auto
    qed
    with Cons.IH a step show "handles_unique (x # xs)" by blast
  qed
qed

lemma handles_unique_store:
  assumes "handles_unique xs"
  shows "handles_unique (xs[j := - 1])"
proof (cases "j < length xs")
  case False
  then have "xs[j := - 1] = xs" by (simp add: list_update_beyond)
  with assms show ?thesis by simp
next
  case True
  have xs: "xs = take j xs @ xs ! j # drop (Suc j) xs"
    using True by (rule id_take_nth_drop)
  have upd: "xs[j := - 1] = take j xs @ - 1 # drop (Suc j) xs"
    using True by (rule upd_conv_take_nth_drop)
  from assms have "distinct (filter (\<lambda>v. v \<noteq> - 1) (take j xs @ xs ! j # drop (Suc j) xs))"
    unfolding handles_unique_def using xs by simp
  then have "distinct (filter (\<lambda>v. v \<noteq> - 1) (take j xs @ - 1 # drop (Suc j) xs))"
    by (auto split: if_splits)
  then show ?thesis unfolding handles_unique_def upd .
qed

lemma unique_store_absent:
  assumes u: "handles_unique xs" and lt: "j < length xs" and at: "xs ! j = h"
    and ne: "h \<noteq> - 1"
  shows "h \<notin> set (xs[j := - 1])"
proof -
  have xs: "xs = take j xs @ h # drop (Suc j) xs"
    using id_take_nth_drop [OF lt] at by simp
  have upd: "xs[j := - 1] = take j xs @ - 1 # drop (Suc j) xs"
    using lt by (rule upd_conv_take_nth_drop)
  from u have "distinct (filter (\<lambda>v. v \<noteq> - 1) (take j xs @ h # drop (Suc j) xs))"
    unfolding handles_unique_def using xs by simp
  with ne have "h \<notin> set (take j xs)" and "h \<notin> set (drop (Suc j) xs)"
    by auto
  with ne show ?thesis unfolding upd by auto
qed


lemma thread_delete_registry_ok:
  assumes ok: "registry_ok s"
  shows "registry_ok (snd (LoaderSysDeleteExternalThreadList h s))"
proof (cases "h \<in> set (thread_list s)")
  case False
  from thread_delete_absent [OF ok False] ok show ?thesis by simp
next
  case True
  obtain j where "LoaderSysDeleteExternalThreadList h s =
           (h, s\<lparr>thread_list := (thread_list s)[j := - 1]\<rparr>)"
    by (rule thread_delete_present [OF ok True])
  with ok show ?thesis by (simp add: registry_ok_def)
qed

lemma sema_delete_registry_ok:
  assumes ok: "registry_ok s"
  shows "registry_ok (snd (LoaderSysDeleteExternalSemaList h s))"
proof (cases "h \<in> set (sema_list s)")
  case False
  from sema_delete_absent [OF ok False] ok show ?thesis by simp
next
  case True
  obtain j where "LoaderSysDeleteExternalSemaList h s =
           (h, s\<lparr>sema_list := (sema_list s)[j := - 1]\<rparr>)"
    by (rule sema_delete_present [OF ok True])
  with ok show ?thesis by (simp add: registry_ok_def)
qed

lemma thread_delete_unique:
  assumes ok: "registry_ok s" and u: "handles_unique (thread_list s)"
  shows "handles_unique (thread_list (snd (LoaderSysDeleteExternalThreadList h s)))"
    and "sema_list (snd (LoaderSysDeleteExternalThreadList h s)) = sema_list s"
    and "h \<noteq> - 1 \<Longrightarrow> h \<notin> set (thread_list (snd (LoaderSysDeleteExternalThreadList h s)))"
proof -
  have "handles_unique (thread_list (snd (LoaderSysDeleteExternalThreadList h s))) \<and>
        sema_list (snd (LoaderSysDeleteExternalThreadList h s)) = sema_list s \<and>
        (h \<noteq> - 1 \<longrightarrow> h \<notin> set (thread_list (snd (LoaderSysDeleteExternalThreadList h s))))"
  proof (cases "h \<in> set (thread_list s)")
    case False
    from thread_delete_absent [OF ok False] u False show ?thesis by simp
  next
    case True
    obtain j where lt: "j < THREAD_LIST_LEN" and at: "thread_list s ! j = h"
      and r: "LoaderSysDeleteExternalThreadList h s =
           (h, s\<lparr>thread_list := (thread_list s)[j := - 1]\<rparr>)"
      by (rule thread_delete_present [OF ok True])
    from lt ok have len: "j < length (thread_list s)" by (simp add: registry_ok_def)
    from r have tl: "thread_list (snd (LoaderSysDeleteExternalThreadList h s)) =
        (thread_list s)[j := - 1]"
      and sl: "sema_list (snd (LoaderSysDeleteExternalThreadList h s)) = sema_list s"
      by simp_all
    from handles_unique_store [OF u, of j] unique_store_absent [OF u len at] sl
    show ?thesis unfolding tl by blast
  qed
  then show "handles_unique (thread_list (snd (LoaderSysDeleteExternalThreadList h s)))"
    and "sema_list (snd (LoaderSysDeleteExternalThreadList h s)) = sema_list s"
    and "h \<noteq> - 1 \<Longrightarrow> h \<notin> set (thread_list (snd (LoaderSysDeleteExternalThreadList h s)))"
    by blast+
qed

lemma sema_delete_unique:
  assumes ok: "registry_ok s" and u: "handles_unique (sema_list s)"
  shows "handles_unique (sema_list (snd (LoaderSysDeleteExternalSemaList h s)))"
    and "thread_list (snd (LoaderSysDeleteExternalSemaList h s)) = thread_list s"
    and "h \<noteq> - 1 \<Longrightarrow> h \<notin> set (sema_list (snd (LoaderSysDeleteExternalSemaList h s)))"
proof -
  have "handles_unique (sema_list (snd (LoaderSysDeleteExternalSemaList h s))) \<and>
        thread_list (snd (LoaderSysDeleteExternalSemaList h s)) = thread_list s \<and>
        (h \<noteq> - 1 \<longrightarrow> h \<notin> set (sema_list (snd (LoaderSysDeleteExternalSemaList h s))))"
  proof (cases "h \<in> set (sema_list s)")
    case False
    from sema_delete_absent [OF ok False] u False show ?thesis by simp
  next
    case True
    obtain j where lt: "j < SEMA_LIST_LEN" and at: "sema_list s ! j = h"
      and r: "LoaderSysDeleteExternalSemaList h s =
           (h, s\<lparr>sema_list := (sema_list s)[j := - 1]\<rparr>)"
      by (rule sema_delete_present [OF ok True])
    from lt ok have len: "j < length (sema_list s)" by (simp add: registry_ok_def)
    from r have sl: "sema_list (snd (LoaderSysDeleteExternalSemaList h s)) =
        (sema_list s)[j := - 1]"
      and tl: "thread_list (snd (LoaderSysDeleteExternalSemaList h s)) = thread_list s"
      by simp_all
    from handles_unique_store [OF u, of j] unique_store_absent [OF u len at] tl
    show ?thesis unfolding sl by blast
  qed
  then show "handles_unique (sema_list (snd (LoaderSysDeleteExternalSemaList h s)))"
    and "thread_list (snd (LoaderSysDeleteExternalSemaList h s)) = thread_list s"
    and "h \<noteq> - 1 \<Longrightarrow> h \<notin> set (sema_list (snd (LoaderSysDeleteExternalSemaList h s)))"
    by blast+
qed

lemma registry_unique_ok: "registry_ok registry_unique"
  by (simp add: registry_ok_def registry_unique_def THREAD_LIST_LEN_def SEMA_LIST_LEN_def)

lemma registry_unique_inv:
  "handles_unique (thread_list registry_unique)" "handles_unique (sema_list registry_unique)"
  by (simp_all add: handles_unique_def registry_unique_def filter_replicate)

text \<open>The kernel calls of LoaderSysChangeExternalThreadPriorityExceptMe.\<close>

lemma ChangeThreadPriority_fields:
  "thread_list (ChangeThreadPriority h p s) = thread_list s"
  "sema_list (ChangeThreadPriority h p s) = sema_list s"
  "running_thread (ChangeThreadPriority h p s) = running_thread s"
  "syscalls (ChangeThreadPriority h p s) = syscalls s @ [SysChangeThreadPriority h p]"
  by (simp_all add: ChangeThreadPriority_def)

lemma priority_loop:
  "i \<le> THREAD_LIST_LEN \<Longrightarrow> length (thread_list s) = THREAD_LIST_LEN \<Longrightarrow>
   LoaderSysChangeExternalThreadPriorityExceptMe_loop i tid p s =
     s\<lparr>syscalls := syscalls s @
          map (\<lambda>h. SysChangeThreadPriority h p)
            (filter (\<lambda>h. h \<noteq> tid \<and> - 1 <s h) (drop i (thread_list s)))\<rparr>"
proof (induction i tid p s rule: LoaderSysChangeExternalThreadPriorityExceptMe_loop.induct)
  case (1 i thread_id priority s)
  show ?case
  proof (cases "i < THREAD_LIST_LEN")
    case False
    with "1.prems" have "drop i (thread_list s) = []" by simp
    with False show ?thesis
      by (subst LoaderSysChangeExternalThreadPriorityExceptMe_loop.simps) simp
  next
    case True
    with "1.prems" have d: "drop i (thread_list s) = thread_list s ! i # drop (Suc i) (thread_list s)"
      by (simp add: Cons_nth_drop_Suc)
    from True have le: "Suc i \<le> THREAD_LIST_LEN" by simp
    show ?thesis
    proof (cases "thread_list s ! i \<noteq> thread_id \<and> - 1 <s thread_list s ! i")
      case call: True
      from "1.prems" have len': "length (thread_list (ChangeThreadPriority (thread_list s ! i) priority s))
          = THREAD_LIST_LEN"
        by (simp add: ChangeThreadPriority_fields)
      from "1.IH"(1) [OF True call le len'] True call d show ?thesis
        by (subst LoaderSysChangeExternalThreadPriorityExceptMe_loop.simps)
           (simp add: ChangeThreadPriority_def)
    next
      case skip: False
      from "1.IH"(2) [OF True skip le "1.prems"(2)] True skip d show ?thesis
        by (subst LoaderSysChangeExternalThreadPriorityExceptMe_loop.simps) auto
    qed
  qed
qed

lemma change_priority_result:
  assumes "registry_ok s"
  shows "LoaderSysChangeExternalThreadPriorityExceptMe p s =
     s\<lparr>syscalls := syscalls s @ SysGetThreadId #
          map (\<lambda>h. SysChangeThreadPriority h p)
            (filter (\<lambda>h. h \<noteq> running_thread s \<and> - 1 <s h) (thread_list s))\<rparr>"
proof -
  let ?s1 = "s\<lparr>syscalls := syscalls s @ [SysGetThreadId]\<rparr>"
  from assms have len: "length (thread_list ?s1) = THREAD_LIST_LEN"
    by (simp add: registry_ok_def)
  have "LoaderSysChangeExternalThreadPriorityExceptMe p s =
          LoaderSysChangeExternalThreadPriorityExceptMe_loop 0 (running_thread s) p ?s1"
    by (simp add: LoaderSysChangeExternalThreadPriorityExceptMe_def GetThreadId_def)
  also have "\<dots> = ?s1\<lparr>syscalls := syscalls ?s1 @
          map (\<lambda>h. SysChangeThreadPriority h p)
            (filter (\<lambda>h. h \<noteq> running_thread s \<and> - 1 <s h) (drop 0 (thread_list ?s1)))\<rparr>"
    by (rule priority_loop [OF _ len]) simp
  finally show ?thesis by simp
qed

lemma change_priority_issued:
  assumes "registry_ok s"
  shows "issued s (LoaderSysChangeExternalThreadPriorityExceptMe p s) =
     SysGetThreadId #
          map (\<lambda>h. SysChangeThreadPriority h p)
            (filter (\<lambda>h. h \<noteq> running_thread s \<and> 0 <=s h) (thread_list s))"
  by (simp add: change_priority_result [OF assms] issued_def sless_minus1)

lemma registry_negative_slot_ok: "registry_ok registry_negative_slot"
  by (simp add: registry_ok_def registry_negative_slot_def THREAD_LIST_LEN_def SEMA_LIST_LEN_def)

lemma registry_negative_slot_calls:
  "filter (\<lambda>h. h \<noteq> running_thread registry_negative_slot \<and> - 1 <s h)
     (thread_list registry_negative_slot) = [3]"
  by (simp add: registry_negative_slot_def filter_replicate word_sless_alt)

text \<open>The comparison that checkHookDesc makes.\<close>

lemma strncmp_zero_iff:
  "n \<le> length s2 \<Longrightarrow> \<forall>c\<in>set (take n s2). (of_char c :: nat) \<noteq> 0 \<Longrightarrow>
   (strncmp s1 s2 n = 0) = (take n s1 = take n s2)"
proof (induction n arbitrary: s1 s2)
  case 0
  show ?case by simp
next
  case (Suc n)
  from Suc.prems(1) obtain c2 r2 where s2: "s2 = c2 # r2" by (cases s2) auto
  from Suc.prems s2 have nz: "(of_char c2 :: nat) \<noteq> 0"
    and le: "n \<le> length r2" and rest: "\<forall>c\<in>set (take n r2). (of_char c :: nat) \<noteq> 0"
    by auto
  show ?case
  proof (cases s1)
    case Nil
    with s2 nz show ?thesis by (simp add: byte_at_start_def)
  next
    case (Cons c1 r1)
    show ?thesis
    proof (cases "c1 = c2")
      case True
      with Cons s2 nz Suc.IH [OF le rest, of r1] show ?thesis
        by (simp add: byte_at_start_def)
    next
      case False
      then have "(of_char c1 :: nat) \<noteq> of_char c2" by simp
      with Cons s2 False show ?thesis by (simp add: byte_at_start_def)
    qed
  qed
qed

lemma strncmp_host0:
  "(strncmp str ''host0:'' 6 = 0) = (take 6 str = ''host0:'')"
  using strncmp_zero_iff [of 6 "''host0:''" str] by simp

text \<open>The steps of the recovery are in the order of their phases.\<close>

lemma sorted_constant: "sorted (map (\<lambda>_. c :: nat) xs)"
  by (induction xs) auto

lemma phase_sorted:
  "sorted (map phase
     (map DeleteIntcHandler as @ map TerminateThread bs @ map DeleteSema cs @
      map ReleaseMemory ds @ [RestoreContext rp]))"
  by (auto simp: sorted_append comp_def sorted_constant)

section \<open>Claims\<close>

text \<open>
  C3. For each of LoaderSysDeleteExternalThreadList and LoaderSysDeleteExternalSemaList:
  when the handle \<open>h\<close> is in no slot of the registry, the call returns \<open>-1\<close>
  (not found) and leaves the whole state, hence every slot, as it was; a second
  delete of the same handle then again returns \<open>-1\<close> and changes nothing.
\<close>

theorem delete_absent_is_noop:
  assumes "registry_ok s"
  shows "(h \<notin> set (thread_list s) \<longrightarrow>
            LoaderSysDeleteExternalThreadList h s = (- 1, s) \<and>
            LoaderSysDeleteExternalThreadList h (snd (LoaderSysDeleteExternalThreadList h s))
              = (- 1, s)) \<and>
         (h \<notin> set (sema_list s) \<longrightarrow>
            LoaderSysDeleteExternalSemaList h s = (- 1, s) \<and>
            LoaderSysDeleteExternalSemaList h (snd (LoaderSysDeleteExternalSemaList h s))
              = (- 1, s))"
  using assms by (simp add: thread_delete_absent sema_delete_absent)

theorem delete_absent_is_noop_witness:
  "registry_ok registry_5_9_5 \<and>
   7 \<notin> set (thread_list registry_5_9_5) \<and> 7 \<notin> set (sema_list registry_5_9_5) \<and>
   LoaderSysDeleteExternalThreadList 7 registry_5_9_5 = (- 1, registry_5_9_5) \<and>
   LoaderSysDeleteExternalThreadList 7 (snd (LoaderSysDeleteExternalThreadList 7 registry_5_9_5))
     = (- 1, registry_5_9_5) \<and>
   LoaderSysDeleteExternalSemaList 7 registry_5_9_5 = (- 1, registry_5_9_5) \<and>
   LoaderSysDeleteExternalSemaList 7 (snd (LoaderSysDeleteExternalSemaList 7 registry_5_9_5))
     = (- 1, registry_5_9_5)"
proof -
  have t: "7 \<notin> set (thread_list registry_5_9_5)" by (simp add: registry_5_9_5_def)
  have m: "7 \<notin> set (sema_list registry_5_9_5)" by (simp add: registry_5_9_5_def)
  from delete_absent_is_noop [OF registry_5_9_5_ok, of 7] t m registry_5_9_5_ok
  show ?thesis by blast
qed

text \<open>
  C1. In every registry state whose slots are 5, 9, 5 in three consecutive slots
  and the sentinel \<open>-1\<close> in all the others, LoaderSysDeleteExternalThreadList(9)
  sets the slot holding 9 to \<open>-1\<close>, changes nothing else and returns 9. In every
  state that does not hold a non-negative handle \<open>h\<close>,
  LoaderSysDeleteExternalThreadList(h) returns \<open>-1\<close>, which is not \<open>h\<close>, and
  leaves the state as it was.
\<close>

theorem delete_9_of_5_9_5:
  "(a + 3 + b = THREAD_LIST_LEN \<and>
    thread_list s = replicate a (- 1) @ [5, 9, 5] @ replicate b (- 1) \<longrightarrow>
      LoaderSysDeleteExternalThreadList 9 s =
        (9, s\<lparr>thread_list := replicate a (- 1) @ [5, - 1, 5] @ replicate b (- 1)\<rparr>)) \<and>
   (registry_ok s \<and> 0 <=s h \<and> h \<notin> set (thread_list s) \<longrightarrow>
      fst (LoaderSysDeleteExternalThreadList h s) = - 1 \<and>
      fst (LoaderSysDeleteExternalThreadList h s) \<noteq> h \<and>
      snd (LoaderSysDeleteExternalThreadList h s) = s)"
proof (intro conjI impI; (elim conjE)?)
  assume len: "a + 3 + b = THREAD_LIST_LEN"
    and eq: "thread_list s = replicate a (- 1) @ [5, 9, 5] @ replicate b (- 1)"
  from len have lt: "Suc a < THREAD_LIST_LEN" by arith
  from thread_delete_lowest [OF lt pattern_lowest(1) [OF eq] pattern_lowest(2) [OF eq]]
  show "LoaderSysDeleteExternalThreadList 9 s =
        (9, s\<lparr>thread_list := replicate a (- 1) @ [5, - 1, 5] @ replicate b (- 1)\<rparr>)"
    by (simp only: pattern_lowest(3) [OF eq])
next
  assume ok: "registry_ok s" and nn: "0 <=s h" and ab: "h \<notin> set (thread_list s)"
  from ok ab have r: "LoaderSysDeleteExternalThreadList h s = (- 1, s)"
    by (rule thread_delete_absent)
  from r show "fst (LoaderSysDeleteExternalThreadList h s) = - 1" by simp
  from r nonneg_not_sentinel [OF nn]
  show "fst (LoaderSysDeleteExternalThreadList h s) \<noteq> h" by simp
  from r show "snd (LoaderSysDeleteExternalThreadList h s) = s" by simp
qed

theorem delete_9_of_5_9_5_witness:
  "0 + 3 + 253 = THREAD_LIST_LEN \<and>
   thread_list registry_5_9_5 = replicate 0 (- 1) @ [5, 9, 5] @ replicate 253 (- 1) \<and>
   LoaderSysDeleteExternalThreadList 9 registry_5_9_5 =
     (9, registry_5_9_5\<lparr>thread_list := replicate 0 (- 1) @ [5, - 1, 5] @ replicate 253 (- 1)\<rparr>) \<and>
   registry_ok registry_5_9_5 \<and> 0 <=s (7::s32) \<and> 7 \<notin> set (thread_list registry_5_9_5) \<and>
   fst (LoaderSysDeleteExternalThreadList 7 registry_5_9_5) = - 1 \<and>
   fst (LoaderSysDeleteExternalThreadList 7 registry_5_9_5) \<noteq> 7 \<and>
   snd (LoaderSysDeleteExternalThreadList 7 registry_5_9_5) = registry_5_9_5"
proof -
  have len: "0 + 3 + 253 = THREAD_LIST_LEN" by (simp add: THREAD_LIST_LEN_def)
  have eq: "thread_list registry_5_9_5 = replicate 0 (- 1) @ [5, 9, 5] @ replicate 253 (- 1)"
    by (simp add: registry_5_9_5_def)
  have nn: "0 <=s (7::s32)" by (simp add: word_sle_eq)
  have ab: "7 \<notin> set (thread_list registry_5_9_5)" by (simp add: registry_5_9_5_def)
  from delete_9_of_5_9_5 [of 0 253 registry_5_9_5 7] len eq nn ab registry_5_9_5_ok
  show ?thesis by blast
qed

text \<open>
  C8. In every state, LoaderSysDeleteExternalThreadList(-1) and
  LoaderSysDeleteExternalSemaList(-1) return \<open>-1\<close>, the value that also reports
  "not found", and leave the state, hence every slot, as it was: whether a slot
  holds the sentinel (the store writes \<open>-1\<close> over \<open>-1\<close>) or none does.
\<close>

theorem delete_sentinel_is_noop:
  "LoaderSysDeleteExternalThreadList (- 1) s = (- 1, s) \<and>
   LoaderSysDeleteExternalSemaList (- 1) s = (- 1, s)"
  by (simp add: LoaderSysDeleteExternalThreadList_def LoaderSysDeleteExternalSemaList_def
      thread_loop_sentinel sema_loop_sentinel)

theorem delete_sentinel_is_noop_witness:
  "LoaderSysDeleteExternalThreadList (- 1) registry_5_9_5 = (- 1, registry_5_9_5) \<and>
   LoaderSysDeleteExternalSemaList (- 1) registry_5_9_5 = (- 1, registry_5_9_5) \<and>
   LoaderSysDeleteExternalThreadList (- 1) registry_negative_slot = (- 1, registry_negative_slot) \<and>
   LoaderSysDeleteExternalSemaList (- 1) registry_negative_slot = (- 1, registry_negative_slot)"
  using delete_sentinel_is_noop [of registry_5_9_5]
    delete_sentinel_is_noop [of registry_negative_slot] by blast

text \<open>
  C4. When the handle \<open>h\<close> is present, LoaderSysDeleteExternalThreadList (and
  likewise LoaderSysDeleteExternalSemaList) returns \<open>h\<close>, sets one slot that held
  \<open>h\<close> to the sentinel \<open>-1\<close> and leaves every other slot at its index with its
  value: the table keeps its size, nothing is moved or compacted, and the other
  registry is not touched.
\<close>

theorem delete_present_frame:
  assumes ok: "registry_ok s"
  shows "(h \<in> set (thread_list s) \<longrightarrow>
           (\<exists>j<THREAD_LIST_LEN. \<exists>s'. LoaderSysDeleteExternalThreadList h s = (h, s') \<and>
              thread_list s ! j = h \<and> thread_list s' ! j = - 1 \<and>
              (\<forall>k<THREAD_LIST_LEN. k \<noteq> j \<longrightarrow> thread_list s' ! k = thread_list s ! k) \<and>
              length (thread_list s') = THREAD_LIST_LEN \<and>
              sema_list s' = sema_list s)) \<and>
         (h \<in> set (sema_list s) \<longrightarrow>
           (\<exists>j<SEMA_LIST_LEN. \<exists>s'. LoaderSysDeleteExternalSemaList h s = (h, s') \<and>
              sema_list s ! j = h \<and> sema_list s' ! j = - 1 \<and>
              (\<forall>k<SEMA_LIST_LEN. k \<noteq> j \<longrightarrow> sema_list s' ! k = sema_list s ! k) \<and>
              length (sema_list s') = SEMA_LIST_LEN \<and>
              thread_list s' = thread_list s))"
proof (intro conjI impI)
  assume mem: "h \<in> set (thread_list s)"
  obtain j where lt: "j < THREAD_LIST_LEN" and at: "thread_list s ! j = h"
    and r: "LoaderSysDeleteExternalThreadList h s =
              (h, s\<lparr>thread_list := (thread_list s)[j := - 1]\<rparr>)"
    by (rule thread_delete_present [OF ok mem])
  from ok have len: "length (thread_list s) = THREAD_LIST_LEN" by (simp add: registry_ok_def)
  define s' where "s' = s\<lparr>thread_list := (thread_list s)[j := - 1]\<rparr>"
  have tl': "thread_list s' = (thread_list s)[j := - 1]" and sl': "sema_list s' = sema_list s"
    by (simp_all add: s'_def)
  have f1: "LoaderSysDeleteExternalThreadList h s = (h, s')" unfolding s'_def by (rule r)
  have f2: "thread_list s' ! j = - 1"
    unfolding tl' by (rule store_frame(1) [OF lt len])
  have f3: "\<forall>k<THREAD_LIST_LEN. k \<noteq> j \<longrightarrow> thread_list s' ! k = thread_list s ! k"
    unfolding tl' by (rule store_frame(2) [OF lt len])
  have f4: "length (thread_list s') = THREAD_LIST_LEN"
    unfolding tl' by (rule store_frame(3) [OF lt len])
  show "\<exists>j<THREAD_LIST_LEN. \<exists>s'. LoaderSysDeleteExternalThreadList h s = (h, s') \<and>
              thread_list s ! j = h \<and> thread_list s' ! j = - 1 \<and>
              (\<forall>k<THREAD_LIST_LEN. k \<noteq> j \<longrightarrow> thread_list s' ! k = thread_list s ! k) \<and>
              length (thread_list s') = THREAD_LIST_LEN \<and>
              sema_list s' = sema_list s"
    by (intro exI [of _ j] exI [of _ s'] conjI) (fact lt f1 at f2 f3 f4 sl')+
next
  assume mem: "h \<in> set (sema_list s)"
  obtain j where lt: "j < SEMA_LIST_LEN" and at: "sema_list s ! j = h"
    and r: "LoaderSysDeleteExternalSemaList h s =
              (h, s\<lparr>sema_list := (sema_list s)[j := - 1]\<rparr>)"
    by (rule sema_delete_present [OF ok mem])
  from ok have len: "length (sema_list s) = SEMA_LIST_LEN" by (simp add: registry_ok_def)
  define s' where "s' = s\<lparr>sema_list := (sema_list s)[j := - 1]\<rparr>"
  have sl': "sema_list s' = (sema_list s)[j := - 1]" and tl': "thread_list s' = thread_list s"
    by (simp_all add: s'_def)
  have f1: "LoaderSysDeleteExternalSemaList h s = (h, s')" unfolding s'_def by (rule r)
  have f2: "sema_list s' ! j = - 1"
    unfolding sl' by (rule store_frame(1) [OF lt len])
  have f3: "\<forall>k<SEMA_LIST_LEN. k \<noteq> j \<longrightarrow> sema_list s' ! k = sema_list s ! k"
    unfolding sl' by (rule store_frame(2) [OF lt len])
  have f4: "length (sema_list s') = SEMA_LIST_LEN"
    unfolding sl' by (rule store_frame(3) [OF lt len])
  show "\<exists>j<SEMA_LIST_LEN. \<exists>s'. LoaderSysDeleteExternalSemaList h s = (h, s') \<and>
              sema_list s ! j = h \<and> sema_list s' ! j = - 1 \<and>
              (\<forall>k<SEMA_LIST_LEN. k \<noteq> j \<longrightarrow> sema_list s' ! k = sema_list s ! k) \<and>
              length (sema_list s') = SEMA_LIST_LEN \<and>
              thread_list s' = thread_list s"
    by (intro exI [of _ j] exI [of _ s'] conjI) (fact lt f1 at f2 f3 f4 tl')+
qed

theorem delete_present_frame_witness:
  "registry_ok registry_5_9_5 \<and>
   9 \<in> set (thread_list registry_5_9_5) \<and> 9 \<in> set (sema_list registry_5_9_5) \<and>
   (\<exists>j<THREAD_LIST_LEN. \<exists>s'. LoaderSysDeleteExternalThreadList 9 registry_5_9_5 = (9, s') \<and>
      thread_list registry_5_9_5 ! j = 9 \<and> thread_list s' ! j = - 1 \<and>
      (\<forall>k<THREAD_LIST_LEN. k \<noteq> j \<longrightarrow> thread_list s' ! k = thread_list registry_5_9_5 ! k) \<and>
      length (thread_list s') = THREAD_LIST_LEN \<and>
      sema_list s' = sema_list registry_5_9_5) \<and>
   (\<exists>j<SEMA_LIST_LEN. \<exists>s'. LoaderSysDeleteExternalSemaList 9 registry_5_9_5 = (9, s') \<and>
      sema_list registry_5_9_5 ! j = 9 \<and> sema_list s' ! j = - 1 \<and>
      (\<forall>k<SEMA_LIST_LEN. k \<noteq> j \<longrightarrow> sema_list s' ! k = sema_list registry_5_9_5 ! k) \<and>
      length (sema_list s') = SEMA_LIST_LEN \<and>
      thread_list s' = thread_list registry_5_9_5)"
proof -
  have mt: "9 \<in> set (thread_list registry_5_9_5)"
    and ms: "9 \<in> set (sema_list registry_5_9_5)"
    by (simp_all add: registry_5_9_5_def)
  note T = delete_present_frame [OF registry_5_9_5_ok, of 9]
  from registry_5_9_5_ok mt ms T [THEN conjunct1, THEN mp, OF mt]
    T [THEN conjunct2, THEN mp, OF ms]
  show ?thesis by (intro conjI)
qed

text \<open>
  C5. If in both registries every handle (every value other than the sentinel)
  occupies at most one slot, then this still holds after
  LoaderSysDeleteExternalThreadList and after LoaderSysDeleteExternalSemaList,
  whatever handle they are given; and after the delete of a non-negative handle
  \<open>h\<close> that was present, no slot of that registry holds \<open>h\<close>.
\<close>

theorem delete_keeps_handles_unique:
  assumes ok: "registry_ok s"
    and inv: "handles_unique (thread_list s) \<and> handles_unique (sema_list s)"
  shows "handles_unique (thread_list (snd (LoaderSysDeleteExternalThreadList h s))) \<and>
         handles_unique (sema_list (snd (LoaderSysDeleteExternalThreadList h s))) \<and>
         handles_unique (thread_list (snd (LoaderSysDeleteExternalSemaList h s))) \<and>
         handles_unique (sema_list (snd (LoaderSysDeleteExternalSemaList h s))) \<and>
         (0 <=s h \<and> h \<in> set (thread_list s) \<longrightarrow>
            h \<notin> set (thread_list (snd (LoaderSysDeleteExternalThreadList h s)))) \<and>
         (0 <=s h \<and> h \<in> set (sema_list s) \<longrightarrow>
            h \<notin> set (sema_list (snd (LoaderSysDeleteExternalSemaList h s))))"
proof -
  from inv have ut: "handles_unique (thread_list s)" and us: "handles_unique (sema_list s)"
    by simp_all
  have a: "handles_unique (thread_list (snd (LoaderSysDeleteExternalThreadList h s)))"
    by (rule thread_delete_unique(1) [OF ok ut])
  have b: "handles_unique (sema_list (snd (LoaderSysDeleteExternalThreadList h s)))"
    using us by (simp only: thread_delete_unique(2) [OF ok ut])
  have c: "handles_unique (thread_list (snd (LoaderSysDeleteExternalSemaList h s)))"
    using ut by (simp only: sema_delete_unique(2) [OF ok us])
  have d: "handles_unique (sema_list (snd (LoaderSysDeleteExternalSemaList h s)))"
    by (rule sema_delete_unique(1) [OF ok us])
  have e: "0 <=s h \<and> h \<in> set (thread_list s) \<longrightarrow>
            h \<notin> set (thread_list (snd (LoaderSysDeleteExternalThreadList h s)))"
    using thread_delete_unique(3) [OF ok ut] nonneg_not_sentinel by blast
  have f: "0 <=s h \<and> h \<in> set (sema_list s) \<longrightarrow>
            h \<notin> set (sema_list (snd (LoaderSysDeleteExternalSemaList h s)))"
    using sema_delete_unique(3) [OF ok us] nonneg_not_sentinel by blast
  from a b c d e f show ?thesis by (intro conjI)
qed

theorem delete_keeps_handles_unique_witness:
  "registry_ok registry_unique \<and>
   handles_unique (thread_list registry_unique) \<and> handles_unique (sema_list registry_unique) \<and>
   0 <=s (9::s32) \<and> 9 \<in> set (thread_list registry_unique) \<and>
   0 <=s (8::s32) \<and> 8 \<in> set (sema_list registry_unique) \<and>
   handles_unique (thread_list (snd (LoaderSysDeleteExternalThreadList 9 registry_unique))) \<and>
   handles_unique (sema_list (snd (LoaderSysDeleteExternalSemaList 8 registry_unique))) \<and>
   9 \<notin> set (thread_list (snd (LoaderSysDeleteExternalThreadList 9 registry_unique))) \<and>
   8 \<notin> set (sema_list (snd (LoaderSysDeleteExternalSemaList 8 registry_unique)))"
proof -
  have inv: "handles_unique (thread_list registry_unique) \<and>
             handles_unique (sema_list registry_unique)"
    by (simp add: registry_unique_inv)
  have n9: "0 <=s (9::s32)" and n8: "0 <=s (8::s32)" by (simp_all add: word_sle_eq)
  have m9: "9 \<in> set (thread_list registry_unique)"
    and m8: "8 \<in> set (sema_list registry_unique)"
    by (simp_all add: registry_unique_def)
  note T9 = delete_keeps_handles_unique [OF registry_unique_ok inv, of 9]
  note T8 = delete_keeps_handles_unique [OF registry_unique_ok inv, of 8]
  from T9 n9 m9 have a9: "9 \<notin> set (thread_list (snd (LoaderSysDeleteExternalThreadList 9 registry_unique)))"
    by blast
  from T8 n8 m8 have a8: "8 \<notin> set (sema_list (snd (LoaderSysDeleteExternalSemaList 8 registry_unique)))"
    by blast
  from T9 have u9: "handles_unique (thread_list (snd (LoaderSysDeleteExternalThreadList 9 registry_unique)))"
    by blast
  from T8 have u8: "handles_unique (sema_list (snd (LoaderSysDeleteExternalSemaList 8 registry_unique)))"
    by blast
  from registry_unique_ok inv n9 m9 n8 m8 u9 u8 a9 a8 show ?thesis by (intro conjI) simp_all
qed


text \<open>
  C6. Both registries are tables of 256 slots of 32-bit values, and stay so
  under a delete. The delete scans the slots from index 0 upward and compares
  values: when the handle is present, the slot it sets to \<open>-1\<close> is the one with
  the lowest index among those that hold the handle, and it is the only slot
  it writes.
\<close>

theorem delete_clears_lowest_slot:
  "THREAD_LIST_LEN = 256 \<and> SEMA_LIST_LEN = 256 \<and>
   (registry_ok s \<longrightarrow>
      registry_ok (snd (LoaderSysDeleteExternalThreadList h s)) \<and>
      registry_ok (snd (LoaderSysDeleteExternalSemaList h s))) \<and>
   (registry_ok s \<and> h \<in> set (thread_list s) \<longrightarrow>
      (\<exists>j<THREAD_LIST_LEN. thread_list s ! j = h \<and> (\<forall>k<j. thread_list s ! k \<noteq> h) \<and>
         LoaderSysDeleteExternalThreadList h s =
           (h, s\<lparr>thread_list := (thread_list s)[j := - 1]\<rparr>))) \<and>
   (registry_ok s \<and> h \<in> set (sema_list s) \<longrightarrow>
      (\<exists>j<SEMA_LIST_LEN. sema_list s ! j = h \<and> (\<forall>k<j. sema_list s ! k \<noteq> h) \<and>
         LoaderSysDeleteExternalSemaList h s =
           (h, s\<lparr>sema_list := (sema_list s)[j := - 1]\<rparr>)))"
proof (intro conjI impI; (elim conjE)?)
  show "THREAD_LIST_LEN = 256" by (simp add: THREAD_LIST_LEN_def)
  show "SEMA_LIST_LEN = 256" by (simp add: SEMA_LIST_LEN_def)
next
  assume "registry_ok s"
  then show "registry_ok (snd (LoaderSysDeleteExternalThreadList h s))"
    by (rule thread_delete_registry_ok)
next
  assume "registry_ok s"
  then show "registry_ok (snd (LoaderSysDeleteExternalSemaList h s))"
    by (rule sema_delete_registry_ok)
next
  assume ok: "registry_ok s" and mem: "h \<in> set (thread_list s)"
  obtain j where "j < THREAD_LIST_LEN" and "thread_list s ! j = h"
    and "\<forall>k<j. thread_list s ! k \<noteq> h"
    and "LoaderSysDeleteExternalThreadList h s =
           (h, s\<lparr>thread_list := (thread_list s)[j := - 1]\<rparr>)"
    by (rule thread_delete_present [OF ok mem])
  then show "\<exists>j<THREAD_LIST_LEN. thread_list s ! j = h \<and> (\<forall>k<j. thread_list s ! k \<noteq> h) \<and>
         LoaderSysDeleteExternalThreadList h s =
           (h, s\<lparr>thread_list := (thread_list s)[j := - 1]\<rparr>)"
    by (intro exI [of _ j] conjI)
next
  assume ok: "registry_ok s" and mem: "h \<in> set (sema_list s)"
  obtain j where "j < SEMA_LIST_LEN" and "sema_list s ! j = h"
    and "\<forall>k<j. sema_list s ! k \<noteq> h"
    and "LoaderSysDeleteExternalSemaList h s =
           (h, s\<lparr>sema_list := (sema_list s)[j := - 1]\<rparr>)"
    by (rule sema_delete_present [OF ok mem])
  then show "\<exists>j<SEMA_LIST_LEN. sema_list s ! j = h \<and> (\<forall>k<j. sema_list s ! k \<noteq> h) \<and>
         LoaderSysDeleteExternalSemaList h s =
           (h, s\<lparr>sema_list := (sema_list s)[j := - 1]\<rparr>)"
    by (intro exI [of _ j] conjI)
qed

theorem delete_clears_lowest_slot_witness:
  "registry_ok registry_5_9_5 \<and> 5 \<in> set (thread_list registry_5_9_5) \<and>
   thread_list registry_5_9_5 ! 0 = 5 \<and> thread_list registry_5_9_5 ! 2 = 5 \<and>
   LoaderSysDeleteExternalThreadList 5 registry_5_9_5 =
     (5, registry_5_9_5\<lparr>thread_list := [- 1, 9, 5] @ replicate 253 (- 1)\<rparr>) \<and>
   5 \<in> set (sema_list registry_5_9_5) \<and>
   LoaderSysDeleteExternalSemaList 5 registry_5_9_5 =
     (5, registry_5_9_5\<lparr>sema_list := [- 1, 9, 5] @ replicate 253 (- 1)\<rparr>) \<and>
   registry_ok (snd (LoaderSysDeleteExternalThreadList 5 registry_5_9_5)) \<and>
   registry_ok (snd (LoaderSysDeleteExternalSemaList 5 registry_5_9_5))"
proof -
  have mt: "5 \<in> set (thread_list registry_5_9_5)"
    and ms: "5 \<in> set (sema_list registry_5_9_5)"
    by (simp_all add: registry_5_9_5_def)
  have t0: "thread_list registry_5_9_5 ! 0 = 5" and t2: "thread_list registry_5_9_5 ! 2 = 5"
    and s0: "sema_list registry_5_9_5 ! 0 = 5"
    by (simp_all add: registry_5_9_5_def)
  have ut: "(thread_list registry_5_9_5)[0 := - 1] = [- 1, 9, 5] @ replicate 253 (- 1)"
    and us: "(sema_list registry_5_9_5)[0 := - 1] = [- 1, 9, 5] @ replicate 253 (- 1)"
    by (simp_all add: registry_5_9_5_def)
  note T = delete_clears_lowest_slot [of registry_5_9_5 5]
  from T registry_5_9_5_ok mt
  obtain j where jt: "\<forall>k<j. thread_list registry_5_9_5 ! k \<noteq> 5"
    and rt: "LoaderSysDeleteExternalThreadList 5 registry_5_9_5 =
           (5, registry_5_9_5\<lparr>thread_list := (thread_list registry_5_9_5)[j := - 1]\<rparr>)"
    by blast
  from jt t0 have "j = 0" by (cases j) auto
  with rt ut have a: "LoaderSysDeleteExternalThreadList 5 registry_5_9_5 =
     (5, registry_5_9_5\<lparr>thread_list := [- 1, 9, 5] @ replicate 253 (- 1)\<rparr>)"
    by simp
  from T registry_5_9_5_ok ms
  obtain i where js: "\<forall>k<i. sema_list registry_5_9_5 ! k \<noteq> 5"
    and rs: "LoaderSysDeleteExternalSemaList 5 registry_5_9_5 =
           (5, registry_5_9_5\<lparr>sema_list := (sema_list registry_5_9_5)[i := - 1]\<rparr>)"
    by blast
  from js s0 have "i = 0" by (cases i) auto
  with rs us have b: "LoaderSysDeleteExternalSemaList 5 registry_5_9_5 =
     (5, registry_5_9_5\<lparr>sema_list := [- 1, 9, 5] @ replicate 253 (- 1)\<rparr>)"
    by simp
  from T registry_5_9_5_ok
  have c: "registry_ok (snd (LoaderSysDeleteExternalThreadList 5 registry_5_9_5))"
    and d: "registry_ok (snd (LoaderSysDeleteExternalSemaList 5 registry_5_9_5))"
    by blast+
  from registry_5_9_5_ok mt t0 t2 a ms b c d show ?thesis by (intro conjI)
qed

text \<open>
  C2, as amended. LoaderSysChangeExternalThreadPriorityExceptMe(priority) first
  calls GetThreadId(), once, and then calls ChangeThreadPriority(handle,
  priority) exactly once for every slot of the thread registry, in slot order,
  whose value is non-negative and differs from the id that this GetThreadId()
  call reported; it issues no other kernel call, and none that names the
  caller's own thread. A slot with a negative value is skipped, the sentinel
  \<open>-1\<close> and any other negative value alike.
\<close>

theorem change_priority_calls:
  assumes "registry_ok s"
  shows "issued s (LoaderSysChangeExternalThreadPriorityExceptMe priority s) =
           SysGetThreadId #
           map (\<lambda>h. SysChangeThreadPriority h priority)
             (filter (\<lambda>h. h \<noteq> running_thread s \<and> 0 <=s h) (thread_list s)) \<and>
         (\<forall>q. SysChangeThreadPriority (running_thread s) q \<notin>
                set (issued s (LoaderSysChangeExternalThreadPriorityExceptMe priority s)))"
  by (auto simp: change_priority_issued [OF assms])

theorem change_priority_calls_witness:
  "registry_ok registry_negative_slot \<and>
   issued registry_negative_slot
     (LoaderSysChangeExternalThreadPriorityExceptMe 1 registry_negative_slot) =
       [SysGetThreadId, SysChangeThreadPriority 3 1]"
proof -
  have "filter (\<lambda>h. h \<noteq> running_thread registry_negative_slot \<and> 0 <=s h)
     (thread_list registry_negative_slot) = [3]"
    using registry_negative_slot_calls by (simp add: sless_minus1)
  with change_priority_calls [OF registry_negative_slot_ok, of 1] registry_negative_slot_ok
  show ?thesis by simp
qed

text \<open>
  C2 as stated fails: it promises a call for every slot whose value is not the
  sentinel and not the caller's id. With \<open>-2\<close> in slot 0 and thread 7 running,
  slot 0 is such a slot, and the only calls are GetThreadId() and
  ChangeThreadPriority(3, 1).
\<close>

theorem change_priority_skips_negative_counterexample:
  "thread_list registry_negative_slot ! 0 = - 2 \<and>
   (- 2 :: s32) \<noteq> - 1 \<and>
   - 2 \<noteq> running_thread registry_negative_slot \<and>
   syscalls (LoaderSysChangeExternalThreadPriorityExceptMe 1 registry_negative_slot) =
     [SysGetThreadId, SysChangeThreadPriority 3 1] \<and>
   SysChangeThreadPriority (- 2) 1 \<notin>
     set (syscalls (LoaderSysChangeExternalThreadPriorityExceptMe 1 registry_negative_slot))"
proof -
  have c: "syscalls (LoaderSysChangeExternalThreadPriorityExceptMe 1 registry_negative_slot) =
     [SysGetThreadId, SysChangeThreadPriority 3 1]"
    by (simp add: change_priority_result [OF registry_negative_slot_ok]
        registry_negative_slot_calls) (simp add: registry_negative_slot_def)
  have "thread_list registry_negative_slot ! 0 = - 2"
    and "- 2 \<noteq> running_thread registry_negative_slot"
    by (simp_all add: registry_negative_slot_def)
  moreover have "(- 2 :: s32) \<noteq> - 1" by simp
  moreover have "SysChangeThreadPriority (- 2) 1 \<notin>
     set (syscalls (LoaderSysChangeExternalThreadPriorityExceptMe 1 registry_negative_slot))"
    unfolding c by simp
  ultimately show ?thesis using c by (intro conjI)
qed

text \<open>
  C9. LoaderSysChangeExternalThreadPriorityExceptMe leaves the thread registry
  (and the semaphore registry) as it was, and every ChangeThreadPriority call it
  issues names a non-negative value taken from a slot of the thread registry: a
  slot with a negative value, \<open>-1\<close> or any other, causes no call.
\<close>

theorem change_priority_never_negative:
  assumes "registry_ok s"
  shows "thread_list (LoaderSysChangeExternalThreadPriorityExceptMe priority s) = thread_list s \<and>
         sema_list (LoaderSysChangeExternalThreadPriorityExceptMe priority s) = sema_list s \<and>
         syscalls (LoaderSysChangeExternalThreadPriorityExceptMe priority s) =
           syscalls s @ issued s (LoaderSysChangeExternalThreadPriorityExceptMe priority s) \<and>
         (\<forall>h q. SysChangeThreadPriority h q \<in>
                   set (issued s (LoaderSysChangeExternalThreadPriorityExceptMe priority s)) \<longrightarrow>
                 0 <=s h \<and> h \<in> set (thread_list s))"
proof (intro conjI allI impI)
  show "thread_list (LoaderSysChangeExternalThreadPriorityExceptMe priority s) = thread_list s"
    by (simp add: change_priority_result [OF assms])
  show "sema_list (LoaderSysChangeExternalThreadPriorityExceptMe priority s) = sema_list s"
    by (simp add: change_priority_result [OF assms])
  show "syscalls (LoaderSysChangeExternalThreadPriorityExceptMe priority s) =
           syscalls s @ issued s (LoaderSysChangeExternalThreadPriorityExceptMe priority s)"
    by (simp add: change_priority_result [OF assms] issued_def)
next
  fix h q
  assume "SysChangeThreadPriority h q \<in>
            set (issued s (LoaderSysChangeExternalThreadPriorityExceptMe priority s))"
  then show "0 <=s h" and "h \<in> set (thread_list s)"
    by (auto simp: change_priority_issued [OF assms])
qed

theorem change_priority_never_negative_witness:
  "registry_ok registry_negative_slot \<and>
   - 2 \<in> set (thread_list registry_negative_slot) \<and>
   \<not> 0 <=s (- 2 :: s32) \<and>
   SysChangeThreadPriority (- 2) 1 \<notin>
     set (issued registry_negative_slot
            (LoaderSysChangeExternalThreadPriorityExceptMe 1 registry_negative_slot)) \<and>
   thread_list (LoaderSysChangeExternalThreadPriorityExceptMe 1 registry_negative_slot) =
     thread_list registry_negative_slot"
proof -
  have a: "- 2 \<in> set (thread_list registry_negative_slot)"
    by (simp add: registry_negative_slot_def)
  have b: "\<not> 0 <=s (- 2 :: s32)" by (simp add: word_sle_eq)
  from change_priority_never_negative [OF registry_negative_slot_ok, of 1] a b
    registry_negative_slot_ok
  show ?thesis by blast
qed

text \<open>
  C10. checkHookDesc(hook_desc) returns the pointer value plus 6 when the first
  six characters of the string are "host0:", that is when
  strncmp(hook_desc, "host0:", 6) is 0, and returns 0 otherwise; so a result
  other than 0 means the prefix is there. Read on addresses, for a string that
  lies within the 32-bit address space: the result is the address six bytes
  past the start of the string if and only if the prefix is there. The function
  is a pure function of its argument.
\<close>

theorem checkHookDesc_prefix:
  "(take 6 str = ''host0:'' \<longrightarrow> checkHookDesc hook_desc str = hook_desc + 6) \<and>
   (take 6 str \<noteq> ''host0:'' \<longrightarrow> checkHookDesc hook_desc str = 0) \<and>
   (checkHookDesc hook_desc str \<noteq> 0 \<longrightarrow> take 6 str = ''host0:'') \<and>
   (unat hook_desc + length str < 2 ^ 32 \<longrightarrow>
      (unat (checkHookDesc hook_desc str) = unat hook_desc + 6) = (take 6 str = ''host0:''))"
proof (intro conjI impI)
  assume "take 6 str = ''host0:''"
  then show "checkHookDesc hook_desc str = hook_desc + 6"
    by (simp add: checkHookDesc_def strncmp_host0)
next
  assume "take 6 str \<noteq> ''host0:''"
  then show "checkHookDesc hook_desc str = 0"
    by (simp add: checkHookDesc_def strncmp_host0)
next
  assume "checkHookDesc hook_desc str \<noteq> 0"
  then show "take 6 str = ''host0:''"
    by (simp add: checkHookDesc_def strncmp_host0 split: if_splits)
next
  assume fits: "unat hook_desc + length str < 2 ^ 32"
  show "(unat (checkHookDesc hook_desc str) = unat hook_desc + 6) = (take 6 str = ''host0:'')"
  proof (cases "take 6 str = ''host0:''")
    case True
    then have "length (take 6 str) = 6" by simp
    then have "6 \<le> length str" by simp
    with fits have "unat hook_desc + 6 < 2 ^ 32" by simp
    then have "unat (hook_desc + 6) = unat hook_desc + 6"
      by (simp add: unat_word_ariths)
    with True show ?thesis by (simp add: checkHookDesc_def strncmp_host0)
  next
    case False
    then show ?thesis by (simp add: checkHookDesc_def strncmp_host0)
  qed
qed

theorem checkHookDesc_prefix_witness:
  "take 6 ''host0:/boot.elf'' = ''host0:'' \<and>
   checkHookDesc 0x1000 ''host0:/boot.elf'' = 0x1006 \<and>
   checkHookDesc 0x1000 ''host0:/boot.elf'' \<noteq> 0 \<and>
   unat (0x1000 :: s32) + length ''host0:/boot.elf'' < 2 ^ 32 \<and>
   unat (checkHookDesc 0x1000 ''host0:/boot.elf'') = unat (0x1000 :: s32) + 6 \<and>
   take 6 ''cdrom0:'' \<noteq> ''host0:'' \<and>
   checkHookDesc 0x1000 ''cdrom0:'' = 0 \<and>
   take 6 ''host'' \<noteq> ''host0:'' \<and>
   checkHookDesc 0xFFFFFFFA ''host'' = 0 \<and>
   unat (0xFFFFFFFA :: s32) + length ''host'' < 2 ^ 32 \<and>
   unat (checkHookDesc 0xFFFFFFFA ''host'') \<noteq> unat (0xFFFFFFFA :: s32) + 6"
proof -
  have m: "take 6 ''host0:/boot.elf'' = ''host0:''" by simp
  have n: "take 6 ''cdrom0:'' \<noteq> ''host0:''" by simp
  have k: "take 6 ''host'' \<noteq> ''host0:''" by simp
  have f1: "unat (0x1000 :: s32) + length ''host0:/boot.elf'' < 2 ^ 32" by simp
  have f2: "unat (0xFFFFFFFA :: s32) + length ''host'' < 2 ^ 32" by simp
  note A = checkHookDesc_prefix [of "''host0:/boot.elf''" "0x1000"]
  note B = checkHookDesc_prefix [of "''cdrom0:''" "0x1000"]
  note C = checkHookDesc_prefix [of "''host''" "0xFFFFFFFA"]
  from A m have a1: "checkHookDesc 0x1000 ''host0:/boot.elf'' = 0x1006" by simp
  then have a2: "checkHookDesc 0x1000 ''host0:/boot.elf'' \<noteq> 0" by simp
  from A m f1 have a3: "unat (checkHookDesc 0x1000 ''host0:/boot.elf'') = unat (0x1000 :: s32) + 6"
    by blast
  from B n have b1: "checkHookDesc 0x1000 ''cdrom0:'' = 0" by blast
  from C k have c1: "checkHookDesc 0xFFFFFFFA ''host'' = 0" by blast
  from C k f2 have c2: "unat (checkHookDesc 0xFFFFFFFA ''host'') \<noteq> unat (0xFFFFFFFA :: s32) + 6"
    by blast
  from m a1 a2 f1 a3 n b1 k c1 f2 c2 show ?thesis by (intro conjI)
qed


text \<open>
  C7. Every run of recoverAndJump performs its teardown in this order: first it
  deletes every registered interrupt handler, then it terminates every
  registered thread except the caller, then it deletes every registered
  semaphore, then it releases every reserved memory block, and only then, as
  its last and only such step, it restores the captured context; control
  resumes at the recovery point and does not return to the caller.
\<close>

theorem recoverAndJump_order:
  "fst (recoverAndJump s) =
     map DeleteIntcHandler (registered (intc_handlers s)) @
     map TerminateThread (filter (\<lambda>t. t \<noteq> caller s) (registered (threads s))) @
     map DeleteSema (registered (semaphores s)) @
     map ReleaseMemory (registered (memory_blocks s)) @
     [RestoreContext (captured s)] \<and>
   sorted (map phase (fst (recoverAndJump s))) \<and>
   filter (\<lambda>e. phase e = 5) (fst (recoverAndJump s)) = [RestoreContext (captured s)] \<and>
   last (fst (recoverAndJump s)) = RestoreContext (captured s) \<and>
   TerminateThread (caller s) \<notin> set (fst (recoverAndJump s)) \<and>
   snd (recoverAndJump s) = ResumesAt (captured s) \<and>
   snd (recoverAndJump s) \<noteq> ReturnsToCaller"
proof (intro conjI)
  show "fst (recoverAndJump s) =
     map DeleteIntcHandler (registered (intc_handlers s)) @
     map TerminateThread (filter (\<lambda>t. t \<noteq> caller s) (registered (threads s))) @
     map DeleteSema (registered (semaphores s)) @
     map ReleaseMemory (registered (memory_blocks s)) @
     [RestoreContext (captured s)]"
    by (simp add: recoverAndJump_def)
  show "sorted (map phase (fst (recoverAndJump s)))"
    by (simp only: recoverAndJump_def fst_conv phase_sorted)
  show "filter (\<lambda>e. phase e = 5) (fst (recoverAndJump s)) = [RestoreContext (captured s)]"
    by (simp add: recoverAndJump_def filter_map comp_def)
  show "last (fst (recoverAndJump s)) = RestoreContext (captured s)"
    by (simp add: recoverAndJump_def)
  show "TerminateThread (caller s) \<notin> set (fst (recoverAndJump s))"
    by (auto simp: recoverAndJump_def)
  show "snd (recoverAndJump s) = ResumesAt (captured s)"
    by (simp add: recoverAndJump_def)
  show "snd (recoverAndJump s) \<noteq> ReturnsToCaller"
    by (simp add: recoverAndJump_def)
qed

theorem recoverAndJump_order_witness:
  "recoverAndJump recovery_example =
     ([DeleteIntcHandler 4, TerminateThread 1, TerminateThread 3, DeleteSema 8,
       ReleaseMemory 0x40,
       RestoreContext \<lparr>saved_pc = 0x100000, saved_sp = 0x1F00000\<rparr>],
      ResumesAt \<lparr>saved_pc = 0x100000, saved_sp = 0x1F00000\<rparr>)"
proof -
  have "fst (recoverAndJump recovery_example) =
     [DeleteIntcHandler 4, TerminateThread 1, TerminateThread 3, DeleteSema 8,
       ReleaseMemory 0x40,
       RestoreContext \<lparr>saved_pc = 0x100000, saved_sp = 0x1F00000\<rparr>]"
    using recoverAndJump_order [of recovery_example]
    by (simp add: recovery_example_def registered_def)
  moreover have "snd (recoverAndJump recovery_example) =
      ResumesAt \<lparr>saved_pc = 0x100000, saved_sp = 0x1F00000\<rparr>"
    using recoverAndJump_order [of recovery_example]
    by (simp add: recovery_example_def)
  ultimately show ?thesis by (simp add: prod_eq_iff)
qed

end
